theory Spec2Isabelle
  imports
    Main
    "HOL-Library.AList"
    "HOL-Library.Multiset"
    "HOL-Library.Char_ord"
    "HOL-Library.List_Lexorder"
    "HOL-Library.Sublist"
begin

unbundle bit_operations_syntax

section \<open>Schedule entries as Python dicts\<close>

text \<open>
  \<^verbatim>\<open>load_schedule_csv\<close> returns \<^verbatim>\<open>pd.read_csv(filepath).to_dict('records')\<close>: one dict per
  row, keyed by column name. A text cell arrives as a Python \<^verbatim>\<open>str\<close>, an empty cell as the
  float NaN; \<^verbatim>\<open>None\<close> is what \<^verbatim>\<open>dict.get\<close> answers for a missing key. Numeric columns
  (ints and floats other than NaN) are not part of the model. A character is a code point
  below 256.
\<close>

datatype pyval = PStr string | PNaN | PNone

text \<open>A dict in insertion order; \<^const>\<open>map_of\<close> is the lookup.\<close>

type_synonym item = "(string \<times> pyval) list"

datatype error = KeyError | ValueError | TypeError | OverflowError | OutsideModel

text \<open>\<^verbatim>\<open>d[k]\<close> raises KeyError on a missing key.\<close>

definition subscript :: "('k \<times> 'v) list \<Rightarrow> 'k \<Rightarrow> error + 'v" where
  "subscript d k = (case map_of d k of None \<Rightarrow> Inl KeyError | Some v \<Rightarrow> Inr v)"

text \<open>\<^verbatim>\<open>item.get(k, default)\<close>, and \<^verbatim>\<open>item.get(k)\<close> whose default is None.\<close>

definition get_default :: "item \<Rightarrow> string \<Rightarrow> pyval \<Rightarrow> pyval" where
  "get_default item k dflt = (case map_of item k of None \<Rightarrow> dflt | Some v \<Rightarrow> v)"

definition get :: "item \<Rightarrow> string \<Rightarrow> pyval" where
  "get item k = get_default item k PNone"

text \<open>\<^verbatim>\<open>bool(v)\<close>: the empty string and None are false, NaN is true.\<close>

fun truthy :: "pyval \<Rightarrow> bool" where
  "truthy (PStr s) = (s \<noteq> [])"
| "truthy PNaN = True"
| "truthy PNone = False"

text \<open>\<^verbatim>\<open>str(v)\<close>, as an f-string field renders a value.\<close>

fun py_str :: "pyval \<Rightarrow> string" where
  "py_str (PStr s) = s"
| "py_str PNaN = ''nan''"
| "py_str PNone = ''None''"

text \<open>\<^verbatim>\<open>a != b\<close>: NaN is unequal to everything, itself included.\<close>

fun py_ne :: "pyval \<Rightarrow> pyval \<Rightarrow> bool" where
  "py_ne PNaN _ = True"
| "py_ne _ PNaN = True"
| "py_ne a b = (a \<noteq> b)"

section \<open>Calendar dates and instants\<close>

text \<open>
  A \<^verbatim>\<open>date\<close> is its proleptic Gregorian ordinal (\<^verbatim>\<open>date.toordinal()\<close>, 1 for 0001-01-01),
  so that comparing dates is comparing integers and adding \<^verbatim>\<open>timedelta(days=n)\<close> is adding n.
  A naive \<^verbatim>\<open>datetime\<close> is the number of microseconds since 0001-01-01T00:00:00.
\<close>

definition max_ordinal :: int where
  "max_ordinal = 3652059"

definition us_per_day :: int where
  "us_per_day = 86400000000"

definition us_per_hour :: int where
  "us_per_hour = 3600000000"

definition is_leap :: "int \<Rightarrow> bool" where
  "is_leap y \<longleftrightarrow> y mod 4 = 0 \<and> (y mod 100 \<noteq> 0 \<or> y mod 400 = 0)"

definition days_in_month :: "int \<Rightarrow> int \<Rightarrow> int" where
  "days_in_month y m =
     (if m = 2 then (if is_leap y then 29 else 28)
      else if m = 4 \<or> m = 6 \<or> m = 9 \<or> m = 11 then 30 else 31)"

definition days_before_year :: "int \<Rightarrow> int" where
  "days_before_year year = (let y = year - 1 in y * 365 + y div 4 - y div 100 + y div 400)"

definition days_before_month :: "int \<Rightarrow> int \<Rightarrow> int" where
  "days_before_month y m = (\<Sum>k \<leftarrow> [1..m - 1]. days_in_month y k)"

definition ymd2ord :: "int \<Rightarrow> int \<Rightarrow> int \<Rightarrow> int" where
  "ymd2ord y m d = days_before_year y + days_before_month y m + d"

text \<open>\<^verbatim>\<open>date(y, m, d)\<close> raises ValueError outside the calendar.\<close>

definition mk_date :: "int \<Rightarrow> int \<Rightarrow> int \<Rightarrow> error + int" where
  "mk_date y m d =
     (if 1 \<le> y \<and> y \<le> 9999 \<and> 1 \<le> m \<and> m \<le> 12 \<and> 1 \<le> d \<and> d \<le> days_in_month y m
      then Inr (ymd2ord y m d) else Inl ValueError)"

text \<open>\<^verbatim>\<open>datetime(y, m, d, H, M, S)\<close>.\<close>

definition mk_datetime :: "int \<Rightarrow> int \<Rightarrow> int \<Rightarrow> int \<Rightarrow> int \<Rightarrow> int \<Rightarrow> error + int" where
  "mk_datetime y m d hh mm ss =
     (case mk_date y m d of
        Inl e \<Rightarrow> Inl e
      | Inr ord \<Rightarrow>
          if 0 \<le> hh \<and> hh \<le> 23 \<and> 0 \<le> mm \<and> mm \<le> 59 \<and> 0 \<le> ss \<and> ss \<le> 59
          then Inr ((ord - 1) * us_per_day + (hh * 3600 + mm * 60 + ss) * 1000000)
          else Inl ValueError)"

text \<open>\<^verbatim>\<open>now.date()\<close>.\<close>

definition date_of :: "int \<Rightarrow> int" where
  "date_of now = now div us_per_day + 1"

text \<open>\<^verbatim>\<open>today + timedelta(days=days)\<close> raises OverflowError outside 0001-01-01 .. 9999-12-31.\<close>

definition add_days :: "int \<Rightarrow> int \<Rightarrow> error + int" where
  "add_days today days =
     (if 1 \<le> today + days \<and> today + days \<le> max_ordinal then Inr (today + days)
      else Inl OverflowError)"

text \<open>\<^verbatim>\<open>now - timedelta(hours=1)\<close>.\<close>

definition sub_hour :: "int \<Rightarrow> error + int" where
  "sub_hour now = (if 0 \<le> now - us_per_hour then Inr (now - us_per_hour) else Inl OverflowError)"

section \<open>\<^verbatim>\<open>datetime.strptime\<close> for the three formats the detector uses\<close>

text \<open>
  \<^verbatim>\<open>_strptime\<close> turns the format into a regular expression, matches it at the start of the
  string with the alternatives of each directive tried in order, and raises ValueError when
  nothing matches or when text is left over:
  \<^verbatim>\<open>%Y\<close> is \<^verbatim>\<open>\d\d\d\d\<close>, \<^verbatim>\<open>%m\<close> is \<^verbatim>\<open>1[0-2]|0[1-9]|[1-9]\<close>,
  \<^verbatim>\<open>%d\<close> is \<^verbatim>\<open>3[0-1]|[1-2]\d|0[1-9]|[1-9]| [1-9]\<close>, \<^verbatim>\<open>%H\<close> is \<^verbatim>\<open>2[0-3]|[0-1]\d|\d\<close>,
  \<^verbatim>\<open>%M\<close> is \<^verbatim>\<open>[0-5]\d|\d\<close>, \<^verbatim>\<open>%S\<close> is \<^verbatim>\<open>6[0-1]|[0-5]\d|\d\<close>, and the blank of a format
  is \<^verbatim>\<open>\s+\<close>.
\<close>

definition is_digit :: "char \<Rightarrow> bool" where
  "is_digit c \<longleftrightarrow> c \<in> set ''0123456789''"

definition digit_val :: "char \<Rightarrow> int" where
  "digit_val c = int (of_char c) - 48"

text \<open>\<^verbatim>\<open>\s\<close> on code points below 256.\<close>

definition is_space :: "char \<Rightarrow> bool" where
  "is_space c \<longleftrightarrow> (of_char c :: nat) \<in> {9, 10, 11, 12, 13, 28, 29, 30, 31, 32, 133, 160}"

subsection \<open>The regular expressions\<close>

text \<open>
  The fragment of \<^verbatim>\<open>re\<close> those directives need: a character class, \<^verbatim>\<open>\s+\<close> (greedy),
  ordered alternation, sequence and a named group. Matching lists every way the expression
  matches a prefix, in the order in which a backtracking matcher finds them, each with
  its groups and the text left.
\<close>

datatype rx =
    Cls "char \<Rightarrow> bool"
  | Plus "char \<Rightarrow> bool"
  | Alt rx rx
  | Seq rx rx
  | Grp string rx

fun plus_cls :: "(char \<Rightarrow> bool) \<Rightarrow> string \<Rightarrow> string list" where
  "plus_cls P [] = []"
| "plus_cls P (c # cs) = (if P c then plus_cls P cs @ [cs] else [])"

fun rx_match :: "rx \<Rightarrow> string \<Rightarrow> ((string \<times> string) list \<times> string) list" where
  "rx_match (Cls P) s = (case s of [] \<Rightarrow> [] | c # cs \<Rightarrow> if P c then [([], cs)] else [])"
| "rx_match (Plus P) s = map (Pair []) (plus_cls P s)"
| "rx_match (Alt a b) s = rx_match a s @ rx_match b s"
| "rx_match (Seq a b) s =
     concat (map (\<lambda>m. map (\<lambda>m'. (fst m @ fst m', snd m')) (rx_match b (snd m))) (rx_match a s))"
| "rx_match (Grp n a) s =
     map (\<lambda>m. ((n, take (length s - length (snd m)) s) # fst m, snd m)) (rx_match a s)"

definition lit :: "char \<Rightarrow> rx" where
  "lit c = Cls (\<lambda>x. x = c)"

definition one_of :: "string \<Rightarrow> rx" where
  "one_of cs = Cls (\<lambda>x. x \<in> set cs)"

definition digit :: rx where
  "digit = Cls is_digit"

definition rx_Y :: rx where
  "rx_Y = Grp ''Y'' (Seq digit (Seq digit (Seq digit digit)))"

definition rx_m :: rx where
  "rx_m = Grp ''m'' (Alt (Seq (lit CHR ''1'') (one_of ''012''))
                    (Alt (Seq (lit CHR ''0'') (one_of ''123456789''))
                         (one_of ''123456789'')))"

definition rx_d :: rx where
  "rx_d = Grp ''d'' (Alt (Seq (lit CHR ''3'') (one_of ''01''))
                    (Alt (Seq (one_of ''12'') digit)
                    (Alt (Seq (lit CHR ''0'') (one_of ''123456789''))
                    (Alt (one_of ''123456789'')
                         (Seq (lit CHR '' '') (one_of ''123456789''))))))"

definition rx_H :: rx where
  "rx_H = Grp ''H'' (Alt (Seq (lit CHR ''2'') (one_of ''0123''))
                    (Alt (Seq (one_of ''01'') digit)
                         digit))"

definition rx_M :: rx where
  "rx_M = Grp ''M'' (Alt (Seq (one_of ''012345'') digit) digit)"

definition rx_S :: rx where
  "rx_S = Grp ''S'' (Alt (Seq (lit CHR ''6'') (one_of ''01''))
                    (Alt (Seq (one_of ''012345'') digit)
                         digit))"

text \<open>The formats \<^verbatim>\<open>'%Y-%m-%d'\<close>, \<^verbatim>\<open>'%Y-%m-%d %H:%M'\<close> and \<^verbatim>\<open>'%Y-%m-%d %H:%M:%S'\<close>.\<close>

definition fmt_date :: rx where
  "fmt_date = Seq rx_Y (Seq (lit CHR ''-'') (Seq rx_m (Seq (lit CHR ''-'') rx_d)))"

definition fmt_date_HM :: rx where
  "fmt_date_HM = Seq fmt_date (Seq (Plus is_space) (Seq rx_H (Seq (lit CHR '':'') rx_M)))"

definition fmt_date_HMS :: rx where
  "fmt_date_HMS = Seq fmt_date_HM (Seq (lit CHR '':'') rx_S)"

subsection \<open>From the match to a datetime\<close>

text \<open>\<^verbatim>\<open>int(text)\<close> on a group: digits, after a blank for a day written \<^verbatim>\<open>' 5'\<close>.\<close>

definition py_int :: "string \<Rightarrow> int" where
  "py_int s = foldl (\<lambda>n c. 10 * n + digit_val c) 0 (filter is_digit s)"

definition group_int :: "(string \<times> string) list \<Rightarrow> string \<Rightarrow> int \<Rightarrow> int" where
  "group_int found_dict g dflt = (case map_of found_dict g of None \<Rightarrow> dflt | Some t \<Rightarrow> py_int t)"

text \<open>
  \<^verbatim>\<open>datetime.strptime(data_string, format)\<close>: TypeError unless the data is a \<^verbatim>\<open>str\<close>,
  ValueError when the expression does not match, when text remains after the match, or when
  the fields are no date and time.
\<close>

definition strptime :: "pyval \<Rightarrow> rx \<Rightarrow> error + int" where
  "strptime data_string format_regex =
     (case data_string of
        PStr s \<Rightarrow>
          (case rx_match format_regex s of
             [] \<Rightarrow> Inl ValueError
           | found # _ \<Rightarrow>
               if snd found \<noteq> [] then Inl ValueError
               else mk_datetime (group_int (fst found) ''Y'' 1900) (group_int (fst found) ''m'' 1)
                      (group_int (fst found) ''d'' 1) (group_int (fst found) ''H'' 0)
                      (group_int (fst found) ''M'' 0) (group_int (fst found) ''S'' 0))
      | _ \<Rightarrow> Inl TypeError)"

section \<open>The window filter\<close>

text \<open>\<^verbatim>\<open>try: body  except (ValueError, KeyError): handler\<close>, for a handler that yields \<open>h\<close>.\<close>

definition except_value_key :: "error + 'a \<Rightarrow> 'a \<Rightarrow> error + 'a" where
  "except_value_key body h =
     (case body of
        Inl e \<Rightarrow> if e = ValueError \<or> e = KeyError then Inr h else Inl e
      | Inr v \<Rightarrow> Inr v)"

text \<open>
  The format argument of line 59:
  \<^verbatim>\<open>'%Y-%m-%d %H:%M:%S' if ':' in start_time_str and start_time_str.count(':') == 2
     else '%Y-%m-%d %H:%M'\<close>; \<^verbatim>\<open>in\<close> raises TypeError on a float.
\<close>

definition time_format :: "pyval \<Rightarrow> error + rx" where
  "time_format start_time_str =
     (case start_time_str of
        PStr s \<Rightarrow> Inr (if CHR '':'' \<in> set s \<and> count_list s CHR '':'' = 2
                      then fmt_date_HMS else fmt_date_HM)
      | _ \<Rightarrow> Inl TypeError)"

text \<open>
  Line 59, \<^verbatim>\<open>datetime.strptime(f"{item['date']} {start_time_str}", ...)\<close>: the f-string is
  evaluated before the format.
\<close>

definition game_datetime :: "item \<Rightarrow> pyval \<Rightarrow> error + int" where
  "game_datetime item start_time_str =
     (case subscript item ''date'' of
        Inl e \<Rightarrow> Inl e
      | Inr d \<Rightarrow>
          (case time_format start_time_str of
             Inl e \<Rightarrow> Inl e
           | Inr fmt \<Rightarrow> strptime (PStr (py_str d @ '' '' @ py_str start_time_str)) fmt))"

text \<open>
  Lines 55 to 68, the inner \<^verbatim>\<open>try\<close> for an item dated today; the result says whether the
  item is appended.
\<close>

definition todays_item :: "int \<Rightarrow> item \<Rightarrow> error + bool" where
  "todays_item now item =
     except_value_key
       (let start_time_str = get_default item ''start_time'' (PStr []) in
        if truthy start_time_str then
          (case game_datetime item start_time_str of
             Inl e \<Rightarrow> Inl e
           | Inr g \<Rightarrow>
               (case sub_hour now of
                  Inl e \<Rightarrow> Inl e
                | Inr limit \<Rightarrow> Inr (g > limit)))
        else Inr True)
       True"

text \<open>Lines 46 to 72, the body of the loop: whether the item is appended.\<close>

definition keep_item :: "int \<Rightarrow> int \<Rightarrow> int \<Rightarrow> item \<Rightarrow> error + bool" where
  "keep_item now today end_date item =
     except_value_key
       (case subscript item ''date'' of
          Inl e \<Rightarrow> Inl e
        | Inr d \<Rightarrow>
          (case strptime d fmt_date of
             Inl e \<Rightarrow> Inl e
           | Inr dt \<Rightarrow>
               let item_date = date_of dt in
               if item_date > today \<and> item_date \<le> end_date then Inr True
               else if item_date = today then todays_item now item
               else Inr False))
       False"

fun filter_loop :: "int \<Rightarrow> int \<Rightarrow> int \<Rightarrow> item list \<Rightarrow> item list \<Rightarrow> error + item list" where
  "filter_loop now today end_date filtered [] = Inr filtered"
| "filter_loop now today end_date filtered (item # items) =
     (case keep_item now today end_date item of
        Inl e \<Rightarrow> Inl e
      | Inr keep \<Rightarrow>
          filter_loop now today end_date (if keep then filtered @ [item] else filtered) items)"

text \<open>\<^verbatim>\<open>filter_next_n_days(items, days)\<close>, with \<^verbatim>\<open>datetime.now()\<close> as the argument \<open>now\<close>.\<close>

definition filter_next_n_days :: "int \<Rightarrow> item list \<Rightarrow> int \<Rightarrow> error + item list" where
  "filter_next_n_days now items days =
     (let today = date_of now in
      case add_days today days of
        Inl e \<Rightarrow> Inl e
      | Inr end_date \<Rightarrow> filter_loop now today end_date [] items)"

section \<open>The diff engine\<close>

text \<open>\<^verbatim>\<open>create_schedule_key\<close>: the f-string reads the four fields in order.\<close>

definition create_schedule_key :: "item \<Rightarrow> error + string" where
  "create_schedule_key item =
     (case subscript item ''date'' of
        Inl e \<Rightarrow> Inl e
      | Inr d \<Rightarrow>
     (case subscript item ''start_time'' of
        Inl e \<Rightarrow> Inl e
      | Inr s \<Rightarrow>
     (case subscript item ''type'' of
        Inl e \<Rightarrow> Inl e
      | Inr t \<Rightarrow>
     (case subscript item ''league'' of
        Inl e \<Rightarrow> Inl e
      | Inr l \<Rightarrow> Inr (py_str d @ ''_'' @ py_str s @ ''_'' @ py_str t @ ''_'' @ py_str l)))))"

text \<open>
  \<^verbatim>\<open>{create_schedule_key(item): item for item in items}\<close>: a dict keeps a key at the place of
  its first insertion and the value of its last, which is \<^const>\<open>AList.update\<close>.
\<close>

fun key_dict :: "(string \<times> item) list \<Rightarrow> item list \<Rightarrow> error + (string \<times> item) list" where
  "key_dict d [] = Inr d"
| "key_dict d (item # items) =
     (case create_schedule_key item of
        Inl e \<Rightarrow> Inl e
      | Inr k \<Rightarrow> key_dict (AList.update k item d) items)"

text \<open>\<^verbatim>\<open>[f(x) for x in xs]\<close>, stopping at the first exception.\<close>

fun comprehension :: "('a \<Rightarrow> error + 'b) \<Rightarrow> 'a list \<Rightarrow> error + 'b list" where
  "comprehension f [] = Inr []"
| "comprehension f (x # xs) =
     (case f x of
        Inl e \<Rightarrow> Inl e
      | Inr y \<Rightarrow> (case comprehension f xs of Inl e \<Rightarrow> Inl e | Inr ys \<Rightarrow> Inr (y # ys)))"

text \<open>Lines 116 to 118: the three fields compared with \<^verbatim>\<open>!=\<close>.\<close>

definition differs :: "item \<Rightarrow> item \<Rightarrow> bool" where
  "differs old_item new_item \<longleftrightarrow>
     py_ne (get old_item ''team'') (get new_item ''team'') \<or>
     py_ne (get old_item ''venue'') (get new_item ''venue'') \<or>
     py_ne (get old_item ''end_time'') (get new_item ''end_time'')"

text \<open>Lines 110 to 119, the loop over the common keys.\<close>

fun modified_loop ::
  "(string \<times> item) list \<Rightarrow> (string \<times> item) list \<Rightarrow> (string \<times> item \<times> item) list \<Rightarrow>
   string list \<Rightarrow> error + (string \<times> item \<times> item) list" where
  "modified_loop old_keys new_keys modified_keys [] = Inr modified_keys"
| "modified_loop old_keys new_keys modified_keys (key # keys) =
     (case subscript old_keys key of
        Inl e \<Rightarrow> Inl e
      | Inr old_item \<Rightarrow>
          (case subscript new_keys key of
             Inl e \<Rightarrow> Inl e
           | Inr new_item \<Rightarrow>
               modified_loop old_keys new_keys
                 (if differs old_item new_item
                  then modified_keys @ [(key, old_item, new_item)] else modified_keys)
                 keys))"

record change_report =
  added :: "item list"
  removed :: "item list"
  modified :: "(string \<times> item \<times> item) list"
  has_changes :: bool

text \<open>
  A Python \<^verbatim>\<open>set\<close> of keys is the duplicate-free list of its elements. The order in which
  a \<^verbatim>\<open>for\<close> visits a set depends on the hashes of the strings, which change from one
  process to the next; \<open>set_iter\<close> is that order, an argument of the model.
\<close>

definition detect_changes ::
  "(string list \<Rightarrow> string list) \<Rightarrow> item list \<Rightarrow> item list \<Rightarrow> error + change_report" where
  "detect_changes set_iter old_items new_items =
     (case key_dict [] old_items of
        Inl e \<Rightarrow> Inl e
      | Inr old_keys \<Rightarrow>
     (case key_dict [] new_items of
        Inl e \<Rightarrow> Inl e
      | Inr new_keys \<Rightarrow>
          let old_key_set = map fst old_keys;
              new_key_set = map fst new_keys;
              added_keys = filter (\<lambda>k. k \<notin> set old_key_set) new_key_set;
              removed_keys = filter (\<lambda>k. k \<notin> set new_key_set) old_key_set;
              common_keys = filter (\<lambda>k. k \<in> set new_key_set) old_key_set
          in
     (case modified_loop old_keys new_keys [] (set_iter common_keys) of
        Inl e \<Rightarrow> Inl e
      | Inr modified_keys \<Rightarrow>
     (case comprehension (subscript new_keys) (set_iter added_keys) of
        Inl e \<Rightarrow> Inl e
      | Inr added_items \<Rightarrow>
     (case comprehension (subscript old_keys) (set_iter removed_keys) of
        Inl e \<Rightarrow> Inl e
      | Inr removed_items \<Rightarrow>
          Inr \<lparr>added = added_items, removed = removed_items, modified = modified_keys,
               has_changes = (length added_keys > 0 \<or> length removed_keys > 0 \<or>
                              length modified_keys > 0)\<rparr>)))))"

text \<open>An iteration order visits every element of the set once.\<close>

definition iteration_order :: "(string list \<Rightarrow> string list) \<Rightarrow> bool" where
  "iteration_order set_iter \<longleftrightarrow> (\<forall>ks. distinct ks \<longrightarrow> mset (set_iter ks) = mset ks)"

section \<open>Sorting\<close>

text \<open>
  \<^verbatim>\<open>sorted(xs, key=f)\<close> computes every key first and then sorts stably. Keys here are
  tuples of fields; tuples of strings compare lexicographically, strings by code point.
  What a comparison of tuples holding NaN or None answers depends on object identity and on
  the pairs the sort happens to compare, so beyond a list of at most one element, which
  needs no comparison, the model gives \<^const>\<open>OutsideModel\<close> for them.
\<close>

fun str_of :: "pyval \<Rightarrow> string option" where
  "str_of (PStr s) = Some s"
| "str_of _ = None"

definition py_sorted :: "('a \<Rightarrow> error + pyval list) \<Rightarrow> 'a list \<Rightarrow> error + 'a list" where
  "py_sorted key xs =
     (case comprehension key xs of
        Inl e \<Rightarrow> Inl e
      | Inr keys \<Rightarrow>
          (case those (map (\<lambda>k. those (map str_of k)) keys) of
             Some ks \<Rightarrow> Inr (map snd (sort_key fst (zip ks xs)))
           | None \<Rightarrow> if length xs \<le> 1 then Inr xs else Inl OutsideModel))"

text \<open>
  Lines 157 and 176 of \<^verbatim>\<open>format_changes_for_email\<close>:
  \<^verbatim>\<open>sorted(changes['added'], key=lambda x: (x['date'], x['start_time']))\<close>.
\<close>

definition date_start_key :: "item \<Rightarrow> error + pyval list" where
  "date_start_key x =
     (case subscript x ''date'' of
        Inl e \<Rightarrow> Inl e
      | Inr d \<Rightarrow> (case subscript x ''start_time'' of Inl e \<Rightarrow> Inl e | Inr s \<Rightarrow> Inr [d, s]))"

definition sorted_for_email :: "item list \<Rightarrow> error + item list" where
  "sorted_for_email items = py_sorted date_start_key items"

section \<open>The canonical hash\<close>

subsection \<open>\<^verbatim>\<open>json.dumps(sorted_items, sort_keys=True)\<close>\<close>

text \<open>
  With the default \<^verbatim>\<open>ensure_ascii\<close>, a string is written between double quotes with
  \<^verbatim>\<open>"\<close> and \<^verbatim>\<open>\\<close> escaped by a backslash, the control characters
  \<^verbatim>\<open>\b \f \n \r \t\<close> by their letters, and every other character outside
  \<^verbatim>\<open>' '..'~'\<close> as \<^verbatim>\<open>\u00xx\<close> in lower-case hexadecimal. NaN is written \<^verbatim>\<open>NaN\<close>, None
  \<^verbatim>\<open>null\<close>; items are separated by \<^verbatim>\<open>', '\<close>, a key from its value by \<^verbatim>\<open>': '\<close>, and the
  keys of a dict are written in ascending order.
\<close>

definition hex_digit :: "nat \<Rightarrow> char" where
  "hex_digit n = ''0123456789abcdef'' ! n"

definition json_escape :: "char \<Rightarrow> string" where
  "json_escape c =
     (let n = of_char c :: nat in
      if n = 0x22 then [CHR 0x5C, CHR 0x22]
      else if n = 0x5C then [CHR 0x5C, CHR 0x5C]
      else if n = 8 then [CHR 0x5C, CHR ''b'']
      else if n = 12 then [CHR 0x5C, CHR ''f'']
      else if n = 10 then [CHR 0x5C, CHR ''n'']
      else if n = 13 then [CHR 0x5C, CHR ''r'']
      else if n = 9 then [CHR 0x5C, CHR ''t'']
      else if 32 \<le> n \<and> n \<le> 126 then [c]
      else [CHR 0x5C, CHR ''u'', CHR ''0'', CHR ''0'', hex_digit (n div 16), hex_digit (n mod 16)])"

definition json_str :: "string \<Rightarrow> string" where
  "json_str s = [CHR 0x22] @ concat (map json_escape s) @ [CHR 0x22]"

fun json_val :: "pyval \<Rightarrow> string" where
  "json_val (PStr s) = json_str s"
| "json_val PNaN = ''NaN''"
| "json_val PNone = ''null''"

fun join :: "string \<Rightarrow> string list \<Rightarrow> string" where
  "join sep [] = []"
| "join sep [x] = x"
| "join sep (x # y # ys) = x @ sep @ join sep (y # ys)"

definition json_item :: "item \<Rightarrow> string" where
  "json_item x =
     ''{'' @ join '', '' (map (\<lambda>kv. json_str (fst kv) @ '': '' @ json_val (snd kv)) (sort_key fst x))
     @ ''}''"

definition json_dumps :: "item list \<Rightarrow> string" where
  "json_dumps items = ''['' @ join '', '' (map json_item items) @ '']''"

subsection \<open>\<^verbatim>\<open>hashlib.md5(...).hexdigest()\<close>\<close>

text \<open>
  MD5 as RFC 1321 defines it. A 32-bit word is an integer between 0 and \<open>2\<^sup>3\<^sup>2 - 1\<close>,
  with the wrap-around of addition, the complement and the rotation written out.
\<close>

definition md5_K :: "int list" where
  "md5_K =
     [0xd76aa478, 0xe8c7b756, 0x242070db, 0xc1bdceee,
      0xf57c0faf, 0x4787c62a, 0xa8304613, 0xfd469501,
      0x698098d8, 0x8b44f7af, 0xffff5bb1, 0x895cd7be,
      0x6b901122, 0xfd987193, 0xa679438e, 0x49b40821,
      0xf61e2562, 0xc040b340, 0x265e5a51, 0xe9b6c7aa,
      0xd62f105d, 0x02441453, 0xd8a1e681, 0xe7d3fbc8,
      0x21e1cde6, 0xc33707d6, 0xf4d50d87, 0x455a14ed,
      0xa9e3e905, 0xfcefa3f8, 0x676f02d9, 0x8d2a4c8a,
      0xfffa3942, 0x8771f681, 0x6d9d6122, 0xfde5380c,
      0xa4beea44, 0x4bdecfa9, 0xf6bb4b60, 0xbebfbc70,
      0x289b7ec6, 0xeaa127fa, 0xd4ef3085, 0x04881d05,
      0xd9d4d039, 0xe6db99e5, 0x1fa27cf8, 0xc4ac5665,
      0xf4292244, 0x432aff97, 0xab9423a7, 0xfc93a039,
      0x655b59c3, 0x8f0ccc92, 0xffeff47d, 0x85845dd1,
      0x6fa87e4f, 0xfe2ce6e0, 0xa3014314, 0x4e0811a1,
      0xf7537e82, 0xbd3af235, 0x2ad7d2bb, 0xeb86d391]"

definition md5_s :: "nat list" where
  "md5_s = [7, 12, 17, 22, 7, 12, 17, 22, 7, 12, 17, 22, 7, 12, 17, 22,
            5, 9, 14, 20, 5, 9, 14, 20, 5, 9, 14, 20, 5, 9, 14, 20,
            4, 11, 16, 23, 4, 11, 16, 23, 4, 11, 16, 23, 4, 11, 16, 23,
            6, 10, 15, 21, 6, 10, 15, 21, 6, 10, 15, 21, 6, 10, 15, 21]"

definition add32 :: "int \<Rightarrow> int \<Rightarrow> int" where
  "add32 a b = (a + b) mod 4294967296"

definition not32 :: "int \<Rightarrow> int" where
  "not32 a = 4294967295 - a"

definition rotl32 :: "nat \<Rightarrow> int \<Rightarrow> int" where
  "rotl32 s x = (x * 2 ^ s) mod 4294967296 + x div 2 ^ (32 - s)"

type_synonym md5_state = "int \<times> int \<times> int \<times> int"

definition md5_step :: "int list \<Rightarrow> nat \<Rightarrow> md5_state \<Rightarrow> md5_state" where
  "md5_step M i st =
     (case st of (A, B, C, D) \<Rightarrow>
        let (F, g) =
              (if i < 16 then ((B AND C) OR (not32 B AND D), i)
               else if i < 32 then ((D AND B) OR (not32 D AND C), (5 * i + 1) mod 16)
               else if i < 48 then (B XOR C XOR D, (3 * i + 5) mod 16)
               else (C XOR (B OR not32 D), (7 * i) mod 16));
            F' = add32 (add32 (add32 F A) (md5_K ! i)) (M ! g)
        in (D, add32 B (rotl32 (md5_s ! i) F'), B, C))"

definition md5_block :: "md5_state \<Rightarrow> int list \<Rightarrow> md5_state" where
  "md5_block st M =
     (case st of (a0, b0, c0, d0) \<Rightarrow>
        case fold (md5_step M) [0..<64] st of (A, B, C, D) \<Rightarrow>
          (add32 a0 A, add32 b0 B, add32 c0 C, add32 d0 D))"

text \<open>Bytes to little-endian words, sixteen words to a block.\<close>

fun le_words :: "int list \<Rightarrow> int list" where
  "le_words (b0 # b1 # b2 # b3 # bs) =
     (b0 + 256 * b1 + 65536 * b2 + 16777216 * b3) # le_words bs"
| "le_words _ = []"

primrec chunks :: "nat \<Rightarrow> int list \<Rightarrow> int list list" where
  "chunks 0 xs = []"
| "chunks (Suc n) xs = take 16 xs # chunks n (drop 16 xs)"

definition le_bytes :: "nat \<Rightarrow> int \<Rightarrow> int list" where
  "le_bytes n v = map (\<lambda>i. (v div 256 ^ i) mod 256) [0..<n]"

text \<open>The padding: a 1 bit, zeros up to 56 modulo 64, the length in bits on eight bytes.\<close>

definition md5_pad :: "int list \<Rightarrow> int list" where
  "md5_pad msg =
     msg @ [128] @ replicate ((119 - length msg mod 64) mod 64) 0
       @ le_bytes 8 (8 * int (length msg))"

definition hex_byte :: "int \<Rightarrow> string" where
  "hex_byte b = [hex_digit (nat (b div 16)), hex_digit (nat (b mod 16))]"

definition md5_hexdigest :: "int list \<Rightarrow> string" where
  "md5_hexdigest msg =
     (let padded = md5_pad msg;
          blocks = chunks (length padded div 64) (le_words padded)
      in case fold (\<lambda>M st. md5_block st M) blocks
                (0x67452301, 0xefcdab89, 0x98badcfe, 0x10325476) of
           (a, b, c, d) \<Rightarrow>
             concat (map (\<lambda>w. concat (map hex_byte (le_bytes 4 w))) [a, b, c, d]))"

text \<open>\<^verbatim>\<open>schedule_str.encode()\<close>: UTF-8 of code points below 256.\<close>

definition encode :: "string \<Rightarrow> int list" where
  "encode s =
     concat (map (\<lambda>c. let n = int (of_char c) in
                        if n < 128 then [n] else [192 + n div 64, 128 + n mod 64]) s)"

subsection \<open>\<^verbatim>\<open>create_schedule_hash\<close>\<close>

text \<open>The key of line 85, \<^verbatim>\<open>lambda x: (x['date'], x['start_time'], x['type'])\<close>.\<close>

definition date_start_type_key :: "item \<Rightarrow> error + pyval list" where
  "date_start_type_key x =
     (case subscript x ''date'' of
        Inl e \<Rightarrow> Inl e
      | Inr d \<Rightarrow>
     (case subscript x ''start_time'' of
        Inl e \<Rightarrow> Inl e
      | Inr s \<Rightarrow> (case subscript x ''type'' of Inl e \<Rightarrow> Inl e | Inr t \<Rightarrow> Inr [d, s, t])))"

definition create_schedule_hash :: "item list \<Rightarrow> error + string" where
  "create_schedule_hash items =
     (case py_sorted date_start_type_key items of
        Inl e \<Rightarrow> Inl e
      | Inr sorted_items \<Rightarrow> Inr (md5_hexdigest (encode (json_dumps sorted_items))))"

section \<open>Notions the claims are stated with\<close>

text \<open>The keys of a collection.\<close>

definition key_set :: "item list \<Rightarrow> string set" where
  "key_set items = {k. \<exists>i \<in> set items. create_schedule_key i = Inr k}"

text \<open>The entry of a collection under a key: the last one with that key.\<close>

definition entry_of :: "item list \<Rightarrow> string \<Rightarrow> item option" where
  "entry_of items k = find (\<lambda>i. create_schedule_key i = Inr k) (rev items)"

text \<open>The common keys whose two entries the comparison of lines 116 to 118 finds alike.\<close>

definition unchanged_keys :: "item list \<Rightarrow> item list \<Rightarrow> string set" where
  "unchanged_keys old_items new_items =
     {k. \<exists>a b. entry_of old_items k = Some a \<and> entry_of new_items k = Some b \<and> \<not> differs a b}"

text \<open>No compared field of the entry is NaN.\<close>

definition no_nan :: "item \<Rightarrow> bool" where
  "no_nan x \<longleftrightarrow> get x ''team'' \<noteq> PNaN \<and> get x ''venue'' \<noteq> PNaN \<and> get x ''end_time'' \<noteq> PNaN"

text \<open>Ascending by \<^verbatim>\<open>(date, start_time)\<close>: by the text of the date, then of the start time.\<close>

definition date_start_text :: "item \<Rightarrow> string list" where
  "date_start_text x = [py_str (get x ''date''), py_str (get x ''start_time'')]"

definition sorted_by_date_start :: "item list \<Rightarrow> bool" where
  "sorted_by_date_start items \<longleftrightarrow> sorted (map date_start_text items)"

text \<open>An entry whose date and start time are text.\<close>

definition text_date_start :: "item \<Rightarrow> bool" where
  "text_date_start x \<longleftrightarrow>
     (\<exists>d s. map_of x ''date'' = Some (PStr d) \<and> map_of x ''start_time'' = Some (PStr s))"

text \<open>An entry whose date, start time and type are text, and that text.\<close>

definition text_sort_fields :: "item \<Rightarrow> bool" where
  "text_sort_fields x \<longleftrightarrow>
     (\<exists>d s t. map_of x ''date'' = Some (PStr d) \<and> map_of x ''start_time'' = Some (PStr s) \<and>
        map_of x ''type'' = Some (PStr t))"

definition date_start_type_text :: "item \<Rightarrow> string list" where
  "date_start_type_text x =
     [py_str (get x ''date''), py_str (get x ''start_time''), py_str (get x ''type'')]"


section \<open>Example data\<close>

text \<open>Noon of 2024-06-01 (ordinal 739038), as microseconds since 0001-01-01T00:00:00.\<close>

definition noon_jun1 :: int where
  "noon_jun1 = 63852840000000000"

text \<open>A row of the schedule CSV with every cell filled.\<close>

definition practice :: "string \<Rightarrow> string \<Rightarrow> item" where
  "practice d s =
     [(''date'', PStr d), (''start_time'', PStr s), (''end_time'', PStr ''20:00''),
      (''type'', PStr ''Practice''), (''league'', PStr ''U11''), (''team'', PStr ''U11 A''),
      (''venue'', PStr ''Amherst Stadium'')]"


text \<open>The same row as \<^verbatim>\<open>read_csv\<close> yields it when its \<^verbatim>\<open>start_time\<close> cell is empty.\<close>

definition no_start_time :: "string \<Rightarrow> item" where
  "no_start_time d =
     [(''date'', PStr d), (''start_time'', PNaN), (''end_time'', PStr ''20:00''),
      (''type'', PStr ''Practice''), (''league'', PStr ''U11''), (''team'', PStr ''U11 A''),
      (''venue'', PStr ''Amherst Stadium'')]"

text \<open>A practice whose \<^verbatim>\<open>team\<close> cell is empty, and a game.\<close>

definition unassigned :: "string \<Rightarrow> string \<Rightarrow> item" where
  "unassigned d s =
     [(''date'', PStr d), (''start_time'', PStr s), (''end_time'', PStr ''20:00''),
      (''type'', PStr ''Practice''), (''league'', PStr ''U11''), (''team'', PNaN),
      (''venue'', PStr ''Amherst Stadium'')]"

definition game :: "string \<Rightarrow> string \<Rightarrow> string \<Rightarrow> item" where
  "game d s t =
     [(''date'', PStr d), (''start_time'', PStr s), (''end_time'', PStr ''19:30''),
      (''type'', PStr ''Game''), (''league'', PStr ''U13''), (''team'', PStr t),
      (''venue'', PStr ''Amherst Stadium'')]"

text \<open>Two snapshots: one game changes its teams, two entries go, two come.\<close>

definition old_snapshot :: "item list" where
  "old_snapshot = [practice ''2024-06-02'' ''09:00'', game ''2024-06-01'' ''18:00'' ''Rams vs Owls'',
                   practice ''2024-06-03'' ''17:00'', game ''2024-06-04'' ''18:00'' ''Rams vs Jets'']"

definition new_snapshot :: "item list" where
  "new_snapshot = [game ''2024-06-05'' ''18:00'' ''Owls vs Jets'', game ''2024-06-01'' ''18:00'' ''Rams vs Cubs'',
                   practice ''2024-06-02'' ''09:00'', practice ''2024-06-02'' ''08:00'']"

text \<open>The reports of diffing them in the two directions, the second with the sets iterated backwards.\<close>

definition old_to_new :: change_report where
  "old_to_new =
     \<lparr>added = [game ''2024-06-05'' ''18:00'' ''Owls vs Jets'', practice ''2024-06-02'' ''08:00''],
      removed = [practice ''2024-06-03'' ''17:00'', game ''2024-06-04'' ''18:00'' ''Rams vs Jets''],
      modified = [(''2024-06-01_18:00_Game_U13'', game ''2024-06-01'' ''18:00'' ''Rams vs Owls'',
                   game ''2024-06-01'' ''18:00'' ''Rams vs Cubs'')],
      has_changes = True\<rparr>"

definition new_to_old :: change_report where
  "new_to_old =
     \<lparr>added = [game ''2024-06-04'' ''18:00'' ''Rams vs Jets'', practice ''2024-06-03'' ''17:00''],
      removed = [practice ''2024-06-02'' ''08:00'', game ''2024-06-05'' ''18:00'' ''Owls vs Jets''],
      modified = [(''2024-06-01_18:00_Game_U13'', game ''2024-06-01'' ''18:00'' ''Rams vs Cubs'',
                   game ''2024-06-01'' ''18:00'' ''Rams vs Owls'')],
      has_changes = True\<rparr>"

text \<open>The rows of a schedule with one empty \<^verbatim>\<open>team\<close> cell.\<close>

definition one_unassigned :: "item list" where
  "one_unassigned = [practice ''2024-06-02'' ''09:00'', unassigned ''2024-06-03'' ''17:00'']"

text \<open>Two games at the same time in two leagues, and the two orders of listing them.\<close>

definition u13_game :: item where
  "u13_game =
     [(''date'', PStr ''2024-06-01''), (''start_time'', PStr ''18:00''), (''end_time'', PStr ''19:30''),
      (''type'', PStr ''Game''), (''league'', PStr ''U13''), (''team'', PStr ''Rams vs Owls''),
      (''venue'', PStr ''Amherst Stadium'')]"

definition u15_game :: item where
  "u15_game =
     [(''date'', PStr ''2024-06-01''), (''start_time'', PStr ''18:00''), (''end_time'', PStr ''19:30''),
      (''type'', PStr ''Game''), (''league'', PStr ''U15''), (''team'', PStr ''Cubs vs Jets''),
      (''venue'', PStr ''Amherst Stadium'')]"

section \<open>Properties of the window filter\<close>

lemma filter_loop_Inr:
  "filter_loop now today end_date filtered items = Inr out \<Longrightarrow>
   out = filtered @ filter (\<lambda>i. keep_item now today end_date i = Inr True) items"
proof (induction items arbitrary: filtered)
  case Nil
  then show ?case by simp
next
  case (Cons item items)
  show ?case
  proof (cases "keep_item now today end_date item")
    case (Inl e)
    with Cons.prems show ?thesis by simp
  next
    case (Inr keep)
    with Cons.prems Cons.IH [of "if keep then filtered @ [item] else filtered"]
    show ?thesis by (cases keep) auto
  qed
qed


lemma filter_next_n_days_Inr:
  assumes "filter_next_n_days now items days = Inr out"
  shows "out = filter (\<lambda>i. keep_item now (date_of now) (date_of now + days) i = Inr True) items"
  using assms filter_loop_Inr [of now "date_of now" "date_of now + days" "[]" items out]
  by (auto simp: filter_next_n_days_def add_days_def Let_def split: if_splits)

lemma except_value_key_twice:
  "except_value_key (except_value_key body h) h' = except_value_key body h"
  by (auto simp: except_value_key_def split: sum.splits)

lemma todays_item_caught:
  "todays_item now item \<noteq> Inl ValueError" "todays_item now item \<noteq> Inl KeyError"
  by (auto simp: todays_item_def except_value_key_def split: sum.splits)

lemma keep_item_dated:
  assumes "subscript e ''date'' = Inr d" and "strptime d fmt_date = Inr dt"
  shows "keep_item now today end_date e =
           (if today < date_of dt \<and> date_of dt \<le> end_date then Inr True
            else if date_of dt = today then todays_item now e
            else Inr False)"
  using assms todays_item_caught [of now e]
  by (auto simp: keep_item_def except_value_key_def Let_def split: sum.splits)

text \<open>
  C10. Whenever \<^verbatim>\<open>filter_next_n_days\<close> returns, its output is a subsequence of its input:
  every retained entry is an input entry, unchanged; the retained entries keep their
  relative order; no entry occurs in the output more often than in the input.
\<close>

theorem filter_subsequence:
  assumes "filter_next_n_days now items days = Inr out"
  shows "set out \<subseteq> set items \<and> subseq out items \<and>
         (\<forall>e. count_list out e \<le> count_list items e)"
proof -
  have out: "out = filter (\<lambda>i. keep_item now (date_of now) (date_of now + days) i = Inr True) items"
    using assms by (rule filter_next_n_days_Inr)
  have "count_list (filter P xs) e \<le> count_list xs e" for P and xs :: "item list" and e
    by (induction xs) auto
  with out show ?thesis by auto
qed

theorem filter_subsequence_witness:
  "filter_next_n_days noon_jun1
     [practice ''2024-06-05'' ''18:00'', practice ''2024-06-09'' ''18:00'',
      practice ''2024-06-01'' ''09:00'', practice ''2024-06-08'' ''18:00''] 7
     = Inr [practice ''2024-06-05'' ''18:00'', practice ''2024-06-08'' ''18:00''] \<and>
   subseq [practice ''2024-06-05'' ''18:00'', practice ''2024-06-08'' ''18:00'']
     [practice ''2024-06-05'' ''18:00'', practice ''2024-06-09'' ''18:00'',
      practice ''2024-06-01'' ''09:00'', practice ''2024-06-08'' ''18:00'']"
proof -
  have run: "filter_next_n_days noon_jun1
     [practice ''2024-06-05'' ''18:00'', practice ''2024-06-09'' ''18:00'',
      practice ''2024-06-01'' ''09:00'', practice ''2024-06-08'' ''18:00''] 7
     = Inr [practice ''2024-06-05'' ''18:00'', practice ''2024-06-08'' ''18:00'']"
    by code_simp
  from filter_subsequence [OF run] run show ?thesis by blast
qed


subsection \<open>Items dated today\<close>

lemma plus_cls_suffix: "r \<in> set (plus_cls P s) \<Longrightarrow> suffix r s"
  by (induction s) (auto simp: suffix_Cons split: if_splits)

lemma rx_match_suffix: "m \<in> set (rx_match r s) \<Longrightarrow> suffix (snd m) s"
proof (induction r arbitrary: s m)
  case (Cls P)
  then show ?case by (cases s) (auto simp: suffix_Cons split: if_splits)
next
  case (Plus P)
  then show ?case by (auto dest: plus_cls_suffix)
next
  case (Alt a b)
  then show ?case by (cases m) auto
next
  case (Seq a b)
  then obtain m1 m2 where "m1 \<in> set (rx_match a s)" "m2 \<in> set (rx_match b (snd m1))"
    "snd m = snd m2" by auto
  with Seq.IH show ?case by (metis suffix_order.trans)
next
  case (Grp n a)
  then show ?case by auto
qed

lemma rx_match_Seq_snd:
  "m \<in> set (rx_match (Seq a b) s) \<Longrightarrow>
   \<exists>m1 \<in> set (rx_match a s). \<exists>m2 \<in> set (rx_match b (snd m1)). snd m = snd m2"
  by force

lemma rx_M_digit:
  assumes "m \<in> set (rx_match rx_M s)"
  shows "\<exists>p c. s = p @ c # snd m \<and> is_digit c"
proof (cases s)
  case Nil
  with assms show ?thesis by (simp add: rx_M_def digit_def one_of_def)
next
  case (Cons a t)
  show ?thesis
  proof (cases t)
    case Nil
    with Cons assms show ?thesis
      by (auto simp: rx_M_def digit_def one_of_def split: if_splits)
  next
    case (Cons b u)
    with \<open>s = a # t\<close> assms have "(snd m = u \<and> is_digit b) \<or> (snd m = t \<and> is_digit a)"
      by (auto simp: rx_M_def digit_def one_of_def split: if_splits)
    then show ?thesis
    proof
      assume "snd m = u \<and> is_digit b"
      with Cons \<open>s = a # t\<close> have "s = [a] @ b # snd m \<and> is_digit b" by simp
      then show ?thesis by blast
    next
      assume "snd m = t \<and> is_digit a"
      with \<open>s = a # t\<close> have "s = [] @ a # snd m \<and> is_digit a" by simp
      then show ?thesis by blast
    qed
  qed
qed

lemma fmt_date_HM_ends_in_digit:
  assumes "m \<in> set (rx_match fmt_date_HM s)" and "snd m = []"
  shows "s \<noteq> [] \<and> is_digit (last s)"
proof -
  from assms(1) obtain m1 m2 where 1: "m1 \<in> set (rx_match fmt_date s)"
    and 2: "m2 \<in> set (rx_match (Seq (Plus is_space) (Seq rx_H (Seq (lit CHR '':'') rx_M))) (snd m1))"
    and e2: "snd m = snd m2"
    unfolding fmt_date_HM_def by (blast dest: rx_match_Seq_snd)
  from 2 obtain m3 m4 where 3: "m3 \<in> set (rx_match (Plus is_space) (snd m1))"
    and 4: "m4 \<in> set (rx_match (Seq rx_H (Seq (lit CHR '':'') rx_M)) (snd m3))"
    and e4: "snd m2 = snd m4"
    by (blast dest: rx_match_Seq_snd)
  from 4 obtain m5 m6 where 5: "m5 \<in> set (rx_match rx_H (snd m3))"
    and 6: "m6 \<in> set (rx_match (Seq (lit CHR '':'') rx_M) (snd m5))" and e6: "snd m4 = snd m6"
    by (blast dest: rx_match_Seq_snd)
  from 6 obtain m7 m8 where 7: "m7 \<in> set (rx_match (lit CHR '':'') (snd m5))"
    and last: "m8 \<in> set (rx_match rx_M (snd m7))" and e8: "snd m6 = snd m8"
    by (blast dest: rx_match_Seq_snd)
  have "suffix (snd m1) s" "suffix (snd m3) (snd m1)" "suffix (snd m5) (snd m3)"
    "suffix (snd m7) (snd m5)"
    using 1 3 5 7 by (blast dest: rx_match_suffix)+
  then have suf: "suffix (snd m7) s"
    by (meson suffix_order.trans)
  have e: "snd m8 = []"
    using assms(2) e2 e4 e6 e8 by simp
  from rx_M_digit [OF last] e obtain p c where "snd m7 = p @ [c]" "is_digit c" by auto
  with suf show ?thesis by (auto simp: suffix_def)
qed

lemma strptime_HM_ends_in_digit:
  assumes "strptime (PStr s) fmt_date_HM = Inr g"
  shows "s \<noteq> [] \<and> is_digit (last s)"
proof (cases "rx_match fmt_date_HM s")
  case Nil
  with assms show ?thesis by (simp add: strptime_def)
next
  case (Cons found rest)
  with assms have "snd found = []" by (auto simp: strptime_def split: if_splits)
  moreover from Cons have "found \<in> set (rx_match fmt_date_HM s)" by simp
  ultimately show ?thesis by (rule fmt_date_HM_ends_in_digit [rotated])
qed

lemma game_datetime_truthy:
  assumes "game_datetime e st = Inr g"
  shows "truthy st \<and> (\<exists>s. st = PStr s)"
proof -
  from assms obtain d fmt where d: "subscript e ''date'' = Inr d" and f: "time_format st = Inr fmt"
    and p: "strptime (PStr (py_str d @ '' '' @ py_str st)) fmt = Inr g"
    by (auto simp: game_datetime_def split: sum.splits)
  from f obtain s where s: "st = PStr s" by (cases st) (auto simp: time_format_def)
  have "s \<noteq> []"
  proof
    assume "s = []"
    with s f p have "strptime (PStr (py_str d @ '' '')) fmt_date_HM = Inr g"
      by (simp add: time_format_def)
    from strptime_HM_ends_in_digit [OF this] show False by (simp add: is_digit_def)
  qed
  with s show ?thesis by simp
qed

lemma todays_item_parsed:
  assumes "game_datetime e (get_default e ''start_time'' (PStr [])) = Inr g"
    and "us_per_hour \<le> now"
  shows "todays_item now e = Inr (now - us_per_hour < g)"
  using assms game_datetime_truthy [OF assms(1)]
  by (auto simp: todays_item_def except_value_key_def sub_hour_def Let_def)

lemma todays_item_fail_open:
  assumes "map_of e ''start_time'' = None \<or> map_of e ''start_time'' = Some PNone \<or>
           (\<exists>s. map_of e ''start_time'' = Some (PStr s) \<and> (\<forall>g. game_datetime e (PStr s) \<noteq> Inr g))"
  shows "todays_item now e = Inr True"
proof -
  have str: "game_datetime e (PStr s) = Inl err \<Longrightarrow> err = KeyError \<or> err = ValueError" for s err
    by (auto simp: game_datetime_def time_format_def strptime_def mk_datetime_def mk_date_def
        subscript_def split: sum.splits list.splits if_splits option.splits)
  from assms show ?thesis
    by (auto simp: todays_item_def except_value_key_def get_default_def Let_def split: sum.splits dest: str)
qed

lemma todays_item_nan:
  assumes "map_of e ''start_time'' = Some PNaN" and "subscript e ''date'' = Inr d"
  shows "todays_item now e = Inl TypeError"
  using assms
  by (simp add: todays_item_def except_value_key_def get_default_def game_datetime_def time_format_def)


text \<open>
  Same-day grace. In a run that returns, an entry dated today whose \<^verbatim>\<open>start_time\<close>
  parses with the date into an instant is retained exactly when the instant is later than
  one hour before \<open>now\<close>.
\<close>

lemma same_day_grace:
  assumes "filter_next_n_days now items days = Inr out"
    and "e \<in> set items"
    and "subscript e ''date'' = Inr d"
    and "strptime d fmt_date = Inr dt"
    and "date_of dt = date_of now"
    and "game_datetime e (get_default e ''start_time'' (PStr [])) = Inr g"
    and "us_per_hour \<le> now"
  shows "e \<in> set out \<longleftrightarrow> now - us_per_hour < g"
proof -
  have "out = filter (\<lambda>i. keep_item now (date_of now) (date_of now + days) i = Inr True) items"
    using assms(1) by (rule filter_next_n_days_Inr)
  moreover have "keep_item now (date_of now) (date_of now + days) e = todays_item now e"
    using keep_item_dated [OF assms(3,4)] assms(5) by simp
  ultimately show ?thesis
    using assms(2) todays_item_parsed [OF assms(6,7)] by simp
qed

text \<open>At noon, the practice that began at 11:30 is kept and the one that began at 10:00 is not.\<close>

lemma same_day_grace_example:
  "filter_next_n_days noon_jun1
     [practice ''2024-06-01'' ''11:30'', practice ''2024-06-01'' ''10:00''] 7
     = Inr [practice ''2024-06-01'' ''11:30'']"
  by code_simp

text \<open>
  Fail open, as far as it holds: an entry dated today is retained when its \<^verbatim>\<open>start_time\<close>
  is missing, is None, or is text that does not parse (the empty text included).
\<close>

lemma same_day_fail_open:
  assumes "filter_next_n_days now items days = Inr out"
    and "e \<in> set items"
    and "subscript e ''date'' = Inr d"
    and "strptime d fmt_date = Inr dt"
    and "date_of dt = date_of now"
    and "map_of e ''start_time'' = None \<or> map_of e ''start_time'' = Some PNone \<or>
         (\<exists>s. map_of e ''start_time'' = Some (PStr s) \<and> (\<forall>g. game_datetime e (PStr s) \<noteq> Inr g))"
  shows "e \<in> set out"
proof -
  have "out = filter (\<lambda>i. keep_item now (date_of now) (date_of now + days) i = Inr True) items"
    using assms(1) by (rule filter_next_n_days_Inr)
  moreover have "keep_item now (date_of now) (date_of now + days) e = todays_item now e"
    using keep_item_dated [OF assms(3,4)] assms(5) by simp
  ultimately show ?thesis
    using assms(2) todays_item_fail_open [OF assms(6)] by simp
qed

text \<open>
  C7. The first half of the claim is \<open>same_day_grace\<close>. The second half fails on an empty
  \<^verbatim>\<open>start_time\<close> cell: NaN is true, \<^verbatim>\<open>':' in start_time_str\<close> raises TypeError, neither
  handler catches it, and the whole call raises instead of retaining the entry. A
  \<^verbatim>\<open>start_time\<close> of text that does not parse is retained, as the handler intends.
\<close>

theorem same_day_nan_start_time_raises:
  "filter_next_n_days noon_jun1 [no_start_time ''2024-06-01''] 7 = Inl TypeError \<and>
   filter_next_n_days noon_jun1 [practice ''2024-06-01'' ''TBA''] 7
     = Inr [practice ''2024-06-01'' ''TBA'']"
  by code_simp

subsection \<open>When the filter returns\<close>








section \<open>Properties of the diff engine\<close>

lemma iteration_order_id: "iteration_order (\<lambda>ks. ks)"
  by (simp add: iteration_order_def)

lemma iteration_order_rev: "iteration_order rev"
  by (simp add: iteration_order_def)

lemma iteration_order_set:
  "iteration_order it \<Longrightarrow> distinct ks \<Longrightarrow> set (it ks) = set ks \<and> distinct (it ks) \<and> length (it ks) = length ks"
  unfolding iteration_order_def
  by (metis mset_eq_setD mset_eq_length distinct_count_atmost_1 set_mset_mset)

lemma find_SomeD: "find P xs = Some x \<Longrightarrow> x \<in> set xs \<and> P x"
  by (induction xs) (auto split: if_splits)

lemma find_app:
  "find P (xs @ ys) = (case find P xs of Some x \<Rightarrow> Some x | None \<Rightarrow> find P ys)"
  by (induction xs) auto

lemma entry_of_Some:
  "entry_of items k = Some i \<Longrightarrow> i \<in> set items \<and> create_schedule_key i = Inr k"
  by (auto simp: entry_of_def dest: find_SomeD)

lemma entry_of_None: "entry_of items k = None \<longleftrightarrow> k \<notin> key_set items"
  by (auto simp: entry_of_def find_None_iff key_set_def)

lemma entry_of_snoc:
  "entry_of (items @ [i]) k = (if create_schedule_key i = Inr k then Some i else entry_of items k)"
  by (simp add: entry_of_def)

lemma entry_of_Cons:
  "entry_of (i # items) k =
     (case entry_of items k of Some j \<Rightarrow> Some j
      | None \<Rightarrow> if create_schedule_key i = Inr k then Some i else None)"
  by (auto simp: entry_of_def find_app split: option.splits)

lemma key_dict_Inr:
  "key_dict d items = Inr d' \<Longrightarrow>
   (distinct (map fst d) \<longrightarrow> distinct (map fst d')) \<and>
   (\<forall>i \<in> set items. \<exists>k. create_schedule_key i = Inr k) \<and>
   (\<forall>k. map_of d' k = (case entry_of items k of Some j \<Rightarrow> Some j | None \<Rightarrow> map_of d k))"
proof (induction items arbitrary: d)
  case Nil
  then show ?case by (simp add: entry_of_def)
next
  case (Cons item items)
  from Cons.prems obtain k0 where k0: "create_schedule_key item = Inr k0"
    and rest: "key_dict (AList.update k0 item d) items = Inr d'"
    by (auto split: sum.splits)
  from Cons.IH [OF rest] k0 show ?case
    by (auto simp: distinct_update update_conv' entry_of_Cons split: option.splits)
qed

lemma key_dict_empty:
  assumes "key_dict [] items = Inr d"
  shows "distinct (map fst d)" and "map_of d = entry_of items" and "set (map fst d) = key_set items"
proof -
  from key_dict_Inr [OF assms] show 1: "distinct (map fst d)"
    by simp
  from key_dict_Inr [OF assms]
  have "map_of d k = (case entry_of items k of Some j \<Rightarrow> Some j | None \<Rightarrow> map_of [] k)" for k
    by blast
  then have "map_of d k = entry_of items k" for k
    by (cases "entry_of items k") simp_all
  then show 2: "map_of d = entry_of items"
    by (rule ext)
  have "set (map fst d) = dom (map_of d)"
    by (simp add: dom_map_of_conv_image_fst)
  also have "\<dots> = key_set items"
    unfolding 2 using entry_of_None [of items] by (auto simp: dom_def)
  finally show "set (map fst d) = key_set items" .
qed

lemma key_dict_total:
  "\<forall>i \<in> set items. \<exists>k. create_schedule_key i = Inr k \<Longrightarrow> \<exists>d'. key_dict d items = Inr d'"
  by (induction items arbitrary: d) auto

lemma key_dict_Inl:
  "key_dict d items = Inl e \<Longrightarrow> \<exists>i \<in> set items. create_schedule_key i = Inl e"
  by (induction items arbitrary: d) (auto split: sum.splits)

lemma comprehension_subscript:
  "set ks \<subseteq> dom (map_of d) \<Longrightarrow> comprehension (subscript d) ks = Inr (map (\<lambda>k. the (map_of d k)) ks)"
  by (induction ks) (auto simp: subscript_def split: option.splits)

lemma modified_loop_Inr:
  "set ks \<subseteq> dom (map_of od) \<inter> dom (map_of nd) \<Longrightarrow>
   modified_loop od nd acc ks =
     Inr (acc @ map (\<lambda>k. (k, the (map_of od k), the (map_of nd k)))
                  (filter (\<lambda>k. differs (the (map_of od k)) (the (map_of nd k))) ks))"
  by (induction ks arbitrary: acc) (auto simp: subscript_def split: option.splits)

lemma detect_changes_Inr:
  assumes ord: "iteration_order it" and run: "detect_changes it old_items new_items = Inr r"
  obtains od nd where
    "key_dict [] old_items = Inr od" and "key_dict [] new_items = Inr nd"
    and "added r = map (\<lambda>k. the (entry_of new_items k))
                    (it (filter (\<lambda>k. k \<notin> key_set old_items) (map fst nd)))"
    and "removed r = map (\<lambda>k. the (entry_of old_items k))
                    (it (filter (\<lambda>k. k \<notin> key_set new_items) (map fst od)))"
    and "modified r = map (\<lambda>k. (k, the (entry_of old_items k), the (entry_of new_items k)))
                    (filter (\<lambda>k. differs (the (entry_of old_items k)) (the (entry_of new_items k)))
                       (it (filter (\<lambda>k. k \<in> key_set new_items) (map fst od))))"
    and "has_changes r \<longleftrightarrow>
           filter (\<lambda>k. k \<notin> key_set old_items) (map fst nd) \<noteq> [] \<or>
           filter (\<lambda>k. k \<notin> key_set new_items) (map fst od) \<noteq> [] \<or> modified r \<noteq> []"
proof -
  from run obtain od nd where od: "key_dict [] old_items = Inr od"
    and nd: "key_dict [] new_items = Inr nd"
    by (auto simp: detect_changes_def split: sum.splits)
  note o = key_dict_empty [OF od] and n = key_dict_empty [OF nd]
  let ?A = "filter (\<lambda>k. k \<notin> key_set old_items) (map fst nd)"
  let ?R = "filter (\<lambda>k. k \<notin> key_set new_items) (map fst od)"
  let ?C = "filter (\<lambda>k. k \<in> key_set new_items) (map fst od)"
  have dA: "distinct ?A" and dR: "distinct ?R" and dC: "distinct ?C"
    using o(1) n(1) by simp_all
  have sA: "set (it ?A) \<subseteq> dom (map_of nd)"
    using iteration_order_set [OF ord dA] n(3) entry_of_None [of new_items]
    by (auto simp: n(2) dom_def)
  have sR: "set (it ?R) \<subseteq> dom (map_of od)"
    using iteration_order_set [OF ord dR] o(3) entry_of_None [of old_items]
    by (auto simp: o(2) dom_def)
  have sC: "set (it ?C) \<subseteq> dom (map_of od) \<inter> dom (map_of nd)"
    using iteration_order_set [OF ord dC] o(3) entry_of_None [of old_items]
      entry_of_None [of new_items]
    by (auto simp: o(2) n(2) dom_def)
  have r: "r = \<lparr>added = map (\<lambda>k. the (map_of nd k)) (it ?A),
               removed = map (\<lambda>k. the (map_of od k)) (it ?R),
               modified = map (\<lambda>k. (k, the (map_of od k), the (map_of nd k)))
                  (filter (\<lambda>k. differs (the (map_of od k)) (the (map_of nd k))) (it ?C)),
               has_changes = (length ?A > 0 \<or> length ?R > 0 \<or>
                 length (map (\<lambda>k. (k, the (map_of od k), the (map_of nd k)))
                  (filter (\<lambda>k. differs (the (map_of od k)) (the (map_of nd k))) (it ?C))) > 0)\<rparr>"
    using run
    unfolding detect_changes_def Let_def od nd sum.case o(3) n(3)
      comprehension_subscript [OF sA] comprehension_subscript [OF sR]
      modified_loop_Inr [OF sC] append_Nil
    by simp
  show thesis
    by (rule that [OF od nd]) (simp_all add: r o(2) n(2) filter_map)
qed

lemma key_set_entries:
  assumes "set ks \<subseteq> key_set items"
  shows "key_set (map (\<lambda>k. the (entry_of items k)) ks) = set ks"
proof -
  have "create_schedule_key (the (entry_of items k)) = Inr k" if "k \<in> set ks" for k
  proof -
    from that assms obtain i where "entry_of items k = Some i"
      using entry_of_None [of items k] by (cases "entry_of items k") auto
    then show ?thesis by (auto dest: entry_of_Some)
  qed
  then show ?thesis
    by (auto simp: key_set_def)
qed

lemma key_set_added:
  assumes "iteration_order it" and "detect_changes it old_items new_items = Inr r"
  shows "key_set (added r) = key_set new_items - key_set old_items"
proof -
  from assms obtain od nd where nd: "key_dict [] new_items = Inr nd"
    and a: "added r = map (\<lambda>k. the (entry_of new_items k))
                    (it (filter (\<lambda>k. k \<notin> key_set old_items) (map fst nd)))"
    by (rule detect_changes_Inr)
  note n = key_dict_empty [OF nd]
  have s: "set (it (filter (\<lambda>k. k \<notin> key_set old_items) (map fst nd))) =
        key_set new_items - key_set old_items"
    using iteration_order_set [OF assms(1), of "filter (\<lambda>k. k \<notin> key_set old_items) (map fst nd)"]
      n(1) n(3) by auto
  show ?thesis
    unfolding a using key_set_entries [of _ new_items] s by auto
qed

lemma key_set_removed:
  assumes "iteration_order it" and "detect_changes it old_items new_items = Inr r"
  shows "key_set (removed r) = key_set old_items - key_set new_items"
proof -
  from assms obtain od nd where od: "key_dict [] old_items = Inr od"
    and a: "removed r = map (\<lambda>k. the (entry_of old_items k))
                    (it (filter (\<lambda>k. k \<notin> key_set new_items) (map fst od)))"
    by (rule detect_changes_Inr)
  note n = key_dict_empty [OF od]
  have s: "set (it (filter (\<lambda>k. k \<notin> key_set new_items) (map fst od))) =
        key_set old_items - key_set new_items"
    using iteration_order_set [OF assms(1), of "filter (\<lambda>k. k \<notin> key_set new_items) (map fst od)"]
      n(1) n(3) by auto
  show ?thesis
    unfolding a using key_set_entries [of _ old_items] s by auto
qed

lemma modified_triples:
  assumes "iteration_order it" and "detect_changes it old_items new_items = Inr r"
  shows "set (modified r) =
           {(k, a, b). entry_of old_items k = Some a \<and> entry_of new_items k = Some b \<and> differs a b}"
    and "distinct (map fst (modified r))"
proof -
  from assms obtain od nd where od: "key_dict [] old_items = Inr od"
    and m: "modified r = map (\<lambda>k. (k, the (entry_of old_items k), the (entry_of new_items k)))
                    (filter (\<lambda>k. differs (the (entry_of old_items k)) (the (entry_of new_items k)))
                       (it (filter (\<lambda>k. k \<in> key_set new_items) (map fst od))))"
    by (rule detect_changes_Inr)
  note o = key_dict_empty [OF od]
  let ?C = "filter (\<lambda>k. k \<in> key_set new_items) (map fst od)"
  have d: "distinct ?C" using o(1) by simp
  have s: "set (it ?C) = key_set old_items \<inter> key_set new_items" and di: "distinct (it ?C)"
    using iteration_order_set [OF assms(1) d] o(3) by auto
  have c: "k \<in> key_set old_items \<inter> key_set new_items \<longleftrightarrow>
           (\<exists>a b. entry_of old_items k = Some a \<and> entry_of new_items k = Some b)" for k
    using entry_of_None [of old_items k] entry_of_None [of new_items k] by auto
  show "set (modified r) =
           {(k, a, b). entry_of old_items k = Some a \<and> entry_of new_items k = Some b \<and> differs a b}"
    unfolding m using s c by force
  show "distinct (map fst (modified r))"
    unfolding m using di by (simp add: comp_def)
qed

text \<open>
  C1. The report of \<^verbatim>\<open>detect_changes\<close> partitions the keys: the keys of \<^verbatim>\<open>added\<close>, the
  keys of \<^verbatim>\<open>removed\<close>, the keys of the \<^verbatim>\<open>modified\<close> triples and the unchanged common keys
  are pairwise disjoint, and together they are the keys of the old collection and of the
  new one.
\<close>

theorem partition_of_keys:
  assumes "iteration_order it" and "detect_changes it old_items new_items = Inr r"
  shows "key_set (added r) \<inter> key_set (removed r) = {} \<and>
         key_set (added r) \<inter> fst ` set (modified r) = {} \<and>
         key_set (removed r) \<inter> fst ` set (modified r) = {} \<and>
         unchanged_keys old_items new_items \<inter>
           (key_set (added r) \<union> key_set (removed r) \<union> fst ` set (modified r)) = {} \<and>
         key_set (added r) \<union> key_set (removed r) \<union> fst ` set (modified r) \<union>
           unchanged_keys old_items new_items = key_set old_items \<union> key_set new_items"
proof -
  note a = key_set_added [OF assms] and r = key_set_removed [OF assms]
    and m = modified_triples(1) [OF assms]
  have c: "k \<in> key_set old_items \<inter> key_set new_items \<longleftrightarrow>
           (\<exists>a b. entry_of old_items k = Some a \<and> entry_of new_items k = Some b)" for k
    using entry_of_None [of old_items k] entry_of_None [of new_items k] by auto
  have mk: "fst ` set (modified r) =
      {k. \<exists>a b. entry_of old_items k = Some a \<and> entry_of new_items k = Some b \<and> differs a b}"
    unfolding m by force
  have split: "fst ` set (modified r) \<union> unchanged_keys old_items new_items =
      key_set old_items \<inter> key_set new_items"
    unfolding mk unchanged_keys_def using c by (auto; metis)
  have disj: "fst ` set (modified r) \<inter> unchanged_keys old_items new_items = {}"
    unfolding mk unchanged_keys_def by auto
  from split disj show ?thesis
    unfolding a r by blast
qed

text \<open>
  C8. The keys of \<^verbatim>\<open>detect_changes(A, B).added\<close> are the keys of
  \<^verbatim>\<open>detect_changes(B, A).removed\<close>, whatever the iteration orders of the two runs.
\<close>

theorem added_removed_symmetry:
  assumes "iteration_order it" and "iteration_order it'"
    and "detect_changes it old_items new_items = Inr r"
    and "detect_changes it' new_items old_items = Inr r'"
  shows "key_set (added r) = key_set (removed r')"
  using key_set_added [OF assms(1,3)] key_set_removed [OF assms(2,4)] by simp

lemma has_changes_iff:
  assumes "iteration_order it" and "detect_changes it old_items new_items = Inr r"
  shows "has_changes r \<longleftrightarrow> added r \<noteq> [] \<or> removed r \<noteq> [] \<or> modified r \<noteq> []"
proof -
  from assms obtain od nd where od: "key_dict [] old_items = Inr od"
    and nd: "key_dict [] new_items = Inr nd"
    and a: "added r = map (\<lambda>k. the (entry_of new_items k))
                    (it (filter (\<lambda>k. k \<notin> key_set old_items) (map fst nd)))"
    and r: "removed r = map (\<lambda>k. the (entry_of old_items k))
                    (it (filter (\<lambda>k. k \<notin> key_set new_items) (map fst od)))"
    and h: "has_changes r \<longleftrightarrow>
           filter (\<lambda>k. k \<notin> key_set old_items) (map fst nd) \<noteq> [] \<or>
           filter (\<lambda>k. k \<notin> key_set new_items) (map fst od) \<noteq> [] \<or> modified r \<noteq> []"
    by (rule detect_changes_Inr)
  have "it ks = [] \<longleftrightarrow> ks = []" if "distinct ks" for ks
    using iteration_order_set [OF assms(1) that] by (metis length_0_conv)
  then show ?thesis
    unfolding h a r using key_dict_empty(1) [OF od] key_dict_empty(1) [OF nd] by simp
qed

lemma old_to_new_run: "detect_changes (\<lambda>ks. ks) old_snapshot new_snapshot = Inr old_to_new"
  by code_simp

lemma new_to_old_run: "detect_changes rev new_snapshot old_snapshot = Inr new_to_old"
  by code_simp

theorem partition_of_keys_witness:
  "detect_changes (\<lambda>ks. ks) old_snapshot new_snapshot = Inr old_to_new \<and>
   key_set (added old_to_new) \<inter> key_set (removed old_to_new) = {} \<and>
   key_set (added old_to_new) \<inter> fst ` set (modified old_to_new) = {} \<and>
   key_set (removed old_to_new) \<inter> fst ` set (modified old_to_new) = {} \<and>
   unchanged_keys old_snapshot new_snapshot \<inter>
     (key_set (added old_to_new) \<union> key_set (removed old_to_new) \<union>
      fst ` set (modified old_to_new)) = {} \<and>
   key_set (added old_to_new) \<union> key_set (removed old_to_new) \<union>
     fst ` set (modified old_to_new) \<union> unchanged_keys old_snapshot new_snapshot =
     key_set old_snapshot \<union> key_set new_snapshot"
  using partition_of_keys [OF iteration_order_id old_to_new_run] old_to_new_run by simp

theorem added_removed_symmetry_witness:
  "detect_changes (\<lambda>ks. ks) old_snapshot new_snapshot = Inr old_to_new \<and>
   detect_changes rev new_snapshot old_snapshot = Inr new_to_old \<and>
   key_set (added old_to_new) = key_set (removed new_to_old)"
  using added_removed_symmetry [OF iteration_order_id iteration_order_rev old_to_new_run new_to_old_run]
    old_to_new_run new_to_old_run by simp

text \<open>
  C4, as stated, fails: \<^verbatim>\<open>detect_changes\<close> lists \<^verbatim>\<open>added\<close> and \<^verbatim>\<open>removed\<close> in the order
  in which the key sets are iterated. Two runs whose \<^verbatim>\<open>added\<close> is not ascending by
  \<^verbatim>\<open>(date, start_time)\<close>:
\<close>

theorem added_not_sorted:
  "detect_changes (\<lambda>ks. ks) old_snapshot new_snapshot = Inr old_to_new \<and>
   \<not> sorted_by_date_start (added old_to_new) \<and>
   detect_changes rev new_snapshot old_snapshot = Inr new_to_old \<and>
   \<not> sorted_by_date_start (added new_to_old)"
  by code_simp

text \<open>
  C5, as stated, fails: for an entry without \<^verbatim>\<open>league\<close> the subscript raises KeyError and
  no key with an empty last component is derived.
\<close>

theorem key_of_entry_without_league:
  "create_schedule_key [(''date'', PStr ''2024-06-01''), (''start_time'', PStr ''18:00''),
      (''type'', PStr ''Game'')] = Inl KeyError \<and>
   create_schedule_key [(''date'', PStr ''2024-06-01''), (''start_time'', PStr ''18:00''),
      (''type'', PStr ''Game'')] \<noteq> Inr ''2024-06-01_18:00_Game_''"
  by code_simp

text \<open>
  C5, amended. \<^verbatim>\<open>create_schedule_key\<close> raises KeyError exactly when the entry lacks one
  of \<^verbatim>\<open>date\<close>, \<^verbatim>\<open>start_time\<close>, \<^verbatim>\<open>type\<close>, \<^verbatim>\<open>league\<close>; an entry that has all four yields the
  text of the four values joined by underscores.
\<close>

theorem create_schedule_key_fields:
  "(create_schedule_key item = Inl KeyError \<longleftrightarrow>
      (\<exists>f \<in> set [''date'', ''start_time'', ''type'', ''league'']. map_of item f = None)) \<and>
   (\<forall>d s t l. map_of item ''date'' = Some d \<and> map_of item ''start_time'' = Some s \<and>
       map_of item ''type'' = Some t \<and> map_of item ''league'' = Some l \<longrightarrow>
      create_schedule_key item = Inr (py_str d @ ''_'' @ py_str s @ ''_'' @ py_str t @ ''_'' @ py_str l))"
  by (auto simp: create_schedule_key_def subscript_def split: option.splits)

theorem create_schedule_key_fields_witness:
  "create_schedule_key [(''date'', PStr ''2024-06-01''), (''start_time'', PStr ''18:00''),
      (''type'', PStr ''Game'')] = Inl KeyError \<and>
   create_schedule_key [(''date'', PStr ''2024-06-01''), (''start_time'', PStr ''18:00''),
      (''type'', PStr ''Game''), (''league'', PNaN)] = Inr ''2024-06-01_18:00_Game_nan''"
  using create_schedule_key_fields [of "[(''date'', PStr ''2024-06-01''), (''start_time'', PStr ''18:00''),
      (''type'', PStr ''Game'')]"]
    create_schedule_key_fields [of "[(''date'', PStr ''2024-06-01''), (''start_time'', PStr ''18:00''),
      (''type'', PStr ''Game''), (''league'', PNaN)]"]
  by simp

subsection \<open>The order of the rows in the email\<close>

lemma comprehension_Inr_map:
  "\<forall>x \<in> set xs. f x = Inr (g x) \<Longrightarrow> comprehension f xs = Inr (map g xs)"
  by (induction xs) auto

lemma those_map_Some: "those (map (\<lambda>x. Some (f x)) xs) = Some (map f xs)"
  by (induction xs) auto

lemma text_date_start_key:
  assumes "text_date_start x"
  shows "date_start_key x = Inr [get x ''date'', get x ''start_time'']"
    and "those (map str_of [get x ''date'', get x ''start_time'']) = Some (date_start_text x)"
  using assms
  by (auto simp: text_date_start_def date_start_key_def subscript_def get_def get_default_def
      date_start_text_def)

lemma sort_key_keyed:
  "map f (map snd (sort_key fst (map (\<lambda>x. (f x, x)) xs))) =
   map fst (sort_key fst (map (\<lambda>x. (f x, x)) xs))"
proof -
  have "\<forall>p \<in> set (sort_key fst (map (\<lambda>x. (f x, x)) xs)). f (snd p) = fst p"
    by auto
  then show ?thesis by (simp add: comp_def)
qed

lemma py_sorted_text:
  assumes "\<forall>x \<in> set items. text_date_start x"
  shows "sorted_for_email items =
           Inr (map snd (sort_key fst (map (\<lambda>x. (date_start_text x, x)) items)))"
proof -
  have 1: "comprehension date_start_key items =
        Inr (map (\<lambda>x. [get x ''date'', get x ''start_time'']) items)"
    using assms by (intro comprehension_Inr_map) (simp add: text_date_start_key(1))
  have 2: "map (\<lambda>k. those (map str_of k)) (map (\<lambda>x. [get x ''date'', get x ''start_time'']) items)
        = map (\<lambda>x. Some (date_start_text x)) items"
    using assms text_date_start_key(2) by (auto simp del: those.simps list.map)
  have 3: "zip (map f xs) xs = map (\<lambda>x. (f x, x)) xs" for f :: "item \<Rightarrow> string list" and xs
    by (induction xs) auto
  have 4: "those (map (\<lambda>k. those (map str_of k))
              (map (\<lambda>x. [get x ''date'', get x ''start_time'']) items))
        = Some (map date_start_text items)"
    by (simp only: 2 those_map_Some)
  show ?thesis
    by (simp only: sorted_for_email_def py_sorted_def 1 sum.case 4 option.case 3)
qed

lemma email_rows:
  assumes "\<forall>x \<in> set items. text_date_start x"
  shows "\<exists>rows. sorted_for_email items = Inr rows \<and> mset rows = mset items \<and>
           sorted_by_date_start rows"
proof -
  let ?rows = "map snd (sort_key fst (map (\<lambda>x. (date_start_text x, x)) items))"
  have "mset ?rows = image_mset snd (mset (map (\<lambda>x. (date_start_text x, x)) items))"
    by (simp only: mset_map mset_sort)
  then have "mset ?rows = mset items"
    by (simp add: image_mset.compositionality comp_def)
  moreover have "sorted_by_date_start ?rows"
    unfolding sorted_by_date_start_def sort_key_keyed by (rule sorted_sort_key)
  ultimately show ?thesis
    using py_sorted_text [OF assms] by simp
qed

lemma report_entries:
  assumes "iteration_order it" and "detect_changes it old_items new_items = Inr r"
  shows "set (added r) \<subseteq> set new_items" and "set (removed r) \<subseteq> set old_items"
proof -
  from assms obtain od nd where od: "key_dict [] old_items = Inr od"
    and nd: "key_dict [] new_items = Inr nd"
    and a: "added r = map (\<lambda>k. the (entry_of new_items k))
                    (it (filter (\<lambda>k. k \<notin> key_set old_items) (map fst nd)))"
    and r: "removed r = map (\<lambda>k. the (entry_of old_items k))
                    (it (filter (\<lambda>k. k \<notin> key_set new_items) (map fst od)))"
    by (rule detect_changes_Inr)
  note o = key_dict_empty [OF od] and n = key_dict_empty [OF nd]
  have e: "k \<in> key_set xs \<Longrightarrow> the (entry_of xs k) \<in> set xs" for k xs
    using entry_of_None [of xs k] by (cases "entry_of xs k") (auto dest: entry_of_Some)
  have "set (it (filter (\<lambda>k. k \<notin> key_set old_items) (map fst nd))) \<subseteq> key_set new_items"
    using iteration_order_set [OF assms(1), of "filter (\<lambda>k. k \<notin> key_set old_items) (map fst nd)"]
      n(1) n(3) by auto
  then show "set (added r) \<subseteq> set new_items"
    unfolding a using e by auto
  have "set (it (filter (\<lambda>k. k \<notin> key_set new_items) (map fst od))) \<subseteq> key_set old_items"
    using iteration_order_set [OF assms(1), of "filter (\<lambda>k. k \<notin> key_set new_items) (map fst od)"]
      o(1) o(3) by auto
  then show "set (removed r) \<subseteq> set old_items"
    unfolding r using e by auto
qed

text \<open>
  C4, amended. The sorting is done by \<^verbatim>\<open>format_changes_for_email\<close>, not by the diff: for
  collections whose dates and start times are text, the rows it renders for \<^verbatim>\<open>added\<close> and
  for \<^verbatim>\<open>removed\<close> (lines 157 and 176) are the entries of the report, rearranged into
  ascending order of \<^verbatim>\<open>(date, start_time)\<close>.
\<close>

theorem email_rows_sorted:
  assumes "iteration_order it" and "detect_changes it old_items new_items = Inr r"
    and "\<forall>x \<in> set old_items \<union> set new_items. text_date_start x"
  shows "(\<exists>rows. sorted_for_email (added r) = Inr rows \<and> mset rows = mset (added r) \<and>
            sorted_by_date_start rows) \<and>
         (\<exists>rows. sorted_for_email (removed r) = Inr rows \<and> mset rows = mset (removed r) \<and>
            sorted_by_date_start rows)"
  using report_entries [OF assms(1,2)] assms(3)
  by (intro conjI email_rows) auto

lemma snapshots_text:
  "\<forall>x \<in> set old_snapshot \<union> set new_snapshot. text_date_start x"
  by (simp add: old_snapshot_def new_snapshot_def practice_def game_def text_date_start_def)

theorem email_rows_sorted_witness:
  "detect_changes (\<lambda>ks. ks) old_snapshot new_snapshot = Inr old_to_new \<and>
   sorted_for_email (added old_to_new) =
     Inr [practice ''2024-06-02'' ''08:00'', game ''2024-06-05'' ''18:00'' ''Owls vs Jets''] \<and>
   (\<exists>rows. sorted_for_email (added old_to_new) = Inr rows \<and>
      mset rows = mset (added old_to_new) \<and> sorted_by_date_start rows) \<and>
   (\<exists>rows. sorted_for_email (removed old_to_new) = Inr rows \<and>
      mset rows = mset (removed old_to_new) \<and> sorted_by_date_start rows)"
proof -
  have rows: "sorted_for_email (added old_to_new) =
     Inr [practice ''2024-06-02'' ''08:00'', game ''2024-06-05'' ''18:00'' ''Owls vs Jets'']"
    by code_simp
  from email_rows_sorted [OF iteration_order_id old_to_new_run snapshots_text] rows old_to_new_run
  show ?thesis by blast
qed

subsection \<open>Modifications and the run on one collection\<close>

lemma detect_changes_total:
  assumes "iteration_order it"
    and "\<forall>i \<in> set old_items \<union> set new_items. \<exists>k. create_schedule_key i = Inr k"
  shows "\<exists>r. detect_changes it old_items new_items = Inr r"
proof -
  from assms(2) obtain od nd where od: "key_dict [] old_items = Inr od"
    and nd: "key_dict [] new_items = Inr nd"
    using key_dict_total [of old_items "[]"] key_dict_total [of new_items "[]"] by auto
  note o = key_dict_empty [OF od] and n = key_dict_empty [OF nd]
  let ?A = "filter (\<lambda>k. k \<notin> key_set old_items) (map fst nd)"
  let ?R = "filter (\<lambda>k. k \<notin> key_set new_items) (map fst od)"
  let ?C = "filter (\<lambda>k. k \<in> key_set new_items) (map fst od)"
  have dA: "distinct ?A" and dR: "distinct ?R" and dC: "distinct ?C"
    using o(1) n(1) by simp_all
  have sA: "set (it ?A) \<subseteq> dom (map_of nd)"
    using iteration_order_set [OF assms(1) dA] n(3) entry_of_None [of new_items]
    by (auto simp: n(2) dom_def)
  have sR: "set (it ?R) \<subseteq> dom (map_of od)"
    using iteration_order_set [OF assms(1) dR] o(3) entry_of_None [of old_items]
    by (auto simp: o(2) dom_def)
  have sC: "set (it ?C) \<subseteq> dom (map_of od) \<inter> dom (map_of nd)"
    using iteration_order_set [OF assms(1) dC] o(3) entry_of_None [of old_items]
      entry_of_None [of new_items]
    by (auto simp: o(2) n(2) dom_def)
  show ?thesis
    unfolding detect_changes_def Let_def od nd sum.case o(3) n(3)
      comprehension_subscript [OF sA] comprehension_subscript [OF sR]
      modified_loop_Inr [OF sC] append_Nil
    by simp
qed

lemma py_ne_value: "a \<noteq> PNaN \<Longrightarrow> b \<noteq> PNaN \<Longrightarrow> py_ne a b \<longleftrightarrow> a \<noteq> b"
  by (cases a; cases b) auto

lemma differs_value:
  assumes "no_nan a" and "no_nan b"
  shows "differs a b \<longleftrightarrow>
     get a ''team'' \<noteq> get b ''team'' \<or> get a ''venue'' \<noteq> get b ''venue'' \<or>
     get a ''end_time'' \<noteq> get b ''end_time''"
  using assms by (simp add: differs_def no_nan_def py_ne_value)

lemma differs_nan:
  "get a ''team'' = PNaN \<or> get a ''venue'' = PNaN \<or> get a ''end_time'' = PNaN \<Longrightarrow> differs a b"
  by (auto simp: differs_def)

lemma modified_iff:
  assumes "iteration_order it" and "detect_changes it old_items new_items = Inr r"
    and "entry_of old_items k = Some a" and "entry_of new_items k = Some b"
  shows "(k, a, b) \<in> set (modified r) \<longleftrightarrow> differs a b"
    and "k \<in> fst ` set (modified r) \<longleftrightarrow> differs a b"
  using modified_triples(1) [OF assms(1,2)] assms(3,4) by force+

lemma modified_only_by_compared_fields:
  assumes "iteration_order it" and "detect_changes it old_items new_items = Inr r"
    and "entry_of old_items k = Some a" and "entry_of new_items k = Some b"
    and "no_nan a" and "no_nan b"
    and "get a ''team'' = get b ''team''" and "get a ''venue'' = get b ''venue''"
    and "get a ''end_time'' = get b ''end_time''"
  shows "k \<notin> fst ` set (modified r)"
  using modified_iff(2) [OF assms(1-4)] differs_value [OF assms(5,6)] assms(7-9) by simp

lemma key_set_empty:
  "key_set xs = {} \<Longrightarrow> \<forall>i \<in> set xs. \<exists>k. create_schedule_key i = Inr k \<Longrightarrow> xs = []"
  by (cases xs) (auto simp: key_set_def)

lemma detect_changes_same:
  assumes "iteration_order it"
    and "\<forall>i \<in> set items. \<exists>k. create_schedule_key i = Inr k"
    and "\<forall>i \<in> set items. no_nan i"
  shows "detect_changes it items items =
           Inr \<lparr>added = [], removed = [], modified = [], has_changes = False\<rparr>"
proof -
  from detect_changes_total [OF assms(1), of items items] assms(2)
  obtain r where r: "detect_changes it items items = Inr r" by auto
  from key_set_added [OF assms(1) r] key_set_removed [OF assms(1) r]
  have "key_set (added r) = {}" "key_set (removed r) = {}" by simp_all
  moreover have "\<forall>i \<in> set (added r) \<union> set (removed r). \<exists>k. create_schedule_key i = Inr k"
    using report_entries [OF assms(1) r] assms(2) by blast
  ultimately have a: "added r = []" and d: "removed r = []"
    by (auto intro: key_set_empty)
  have "set (modified r) = {}"
  proof -
    have "\<not> differs a b" if "entry_of items k = Some a" "entry_of items k = Some b" for k a b
    proof -
      from that have "a = b" "a \<in> set items" by (auto dest: entry_of_Some)
      with assms(3) show ?thesis by (simp add: differs_value)
    qed
    then show ?thesis
      unfolding modified_triples(1) [OF assms(1) r] by auto
  qed
  then have m: "modified r = []" by simp
  from has_changes_iff [OF assms(1) r] a d m have "\<not> has_changes r" by simp
  with a d m r show ?thesis by simp
qed

text \<open>
  C2. The triple is recorded exactly when \<^verbatim>\<open>!=\<close> holds of one of the three fields
  (\<open>modified_iff\<close>), which is a difference of values only where no field is NaN
  (\<open>differs_value\<close>, \<open>modified_only_by_compared_fields\<close>). For a row whose \<^verbatim>\<open>team\<close> cell
  is empty, old and new entry carry the same three values and the triple is recorded all
  the same.
\<close>

theorem nan_field_recorded_as_modified:
  "entry_of [unassigned ''2024-06-03'' ''17:00''] ''2024-06-03_17:00_Practice_U11''
     = Some (unassigned ''2024-06-03'' ''17:00'') \<and>
   map (get (unassigned ''2024-06-03'' ''17:00'')) [''team'', ''venue'', ''end_time'']
     = [PNaN, PStr ''Amherst Stadium'', PStr ''20:00''] \<and>
   detect_changes (\<lambda>ks. ks) [unassigned ''2024-06-03'' ''17:00''] [unassigned ''2024-06-03'' ''17:00'']
     = Inr \<lparr>added = [], removed = [],
            modified = [(''2024-06-03_17:00_Practice_U11'', unassigned ''2024-06-03'' ''17:00'',
                         unassigned ''2024-06-03'' ''17:00'')],
            has_changes = True\<rparr>"
  by code_simp

text \<open>
  C3. A collection without NaN in the compared fields, diffed against itself, gives the
  empty report (\<open>detect_changes_same\<close>), and \<^verbatim>\<open>has_changes\<close> says whether one of the three
  lists is non-empty (\<open>has_changes_iff\<close>). A collection with an empty \<^verbatim>\<open>team\<close> cell,
  diffed against itself, reports a change.
\<close>

theorem same_collection_reports_changes:
  "detect_changes (\<lambda>ks. ks) one_unassigned one_unassigned
     = Inr \<lparr>added = [], removed = [],
            modified = [(''2024-06-03_17:00_Practice_U11'', unassigned ''2024-06-03'' ''17:00'',
                         unassigned ''2024-06-03'' ''17:00'')],
            has_changes = True\<rparr>"
  by code_simp

section \<open>Properties of the canonical hash\<close>

lemma py_sorted_strings:
  assumes "\<forall>x \<in> set xs. key x = Inr (vals x) \<and> those (map str_of (vals x)) = Some (k x)"
  shows "py_sorted key xs = Inr (map snd (sort_key fst (map (\<lambda>x. (k x, x)) xs)))"
proof -
  have 1: "comprehension key xs = Inr (map vals xs)"
    using assms by (intro comprehension_Inr_map) simp
  have 2: "map (\<lambda>k. those (map str_of k)) (map vals xs) = map (\<lambda>x. Some (k x)) xs"
    using assms by (auto simp del: those.simps)
  have 3: "zip (map f ys) ys = map (\<lambda>x. (f x, x)) ys" for f :: "'a \<Rightarrow> string list" and ys
    by (induction ys) auto
  have 4: "those (map (\<lambda>k. those (map str_of k)) (map vals xs)) = Some (map k xs)"
    by (simp only: 2 those_map_Some)
  show ?thesis
    by (simp only: py_sorted_def 1 sum.case 4 option.case 3)
qed

lemma insort_key_keyed:
  "\<forall>p \<in> set ps. fst p = k (snd p) \<Longrightarrow>
   map snd (insort_key fst (k x, x) ps) = insort_key k x (map snd ps)"
  by (induction ps) auto

lemma sort_key_keyed_snd:
  "map snd (sort_key fst (map (\<lambda>x. (k x, x)) xs)) = sort_key k xs"
proof (induction xs)
  case Nil
  then show ?case by simp
next
  case (Cons x xs)
  have "\<forall>p \<in> set (sort_key fst (map (\<lambda>x. (k x, x)) xs)). fst p = k (snd p)"
    by auto
  with Cons show ?case
    by (simp add: insort_key_keyed)
qed

lemma sort_key_permutation:
  assumes "mset xs = mset ys" and "inj_on k (set xs)"
  shows "sort_key k xs = sort_key k ys"
proof (rule properties_for_sort_key [symmetric])
  show "mset (sort_key k xs) = mset ys"
    using assms(1) by simp
  show "sorted (map k (sort_key k xs))"
    by (rule sorted_sort_key)
  fix a
  assume "a \<in> set (sort_key k xs)"
  then have a: "a \<in> set xs" by simp
  have s: "set ys = set xs"
    using assms(1) by (metis set_mset_mset)
  have eq: "filter (\<lambda>x. k a = k x) zs = filter (\<lambda>x. a = x) zs" if "set zs = set xs" for zs
    using that a assms(2) by (intro filter_cong) (auto dest: inj_onD)
  have rep: "filter (\<lambda>x. a = x) zs = replicate (count (mset zs) a) a" for zs :: "'a list"
    by (induction zs) auto
  have "filter (\<lambda>x. k a = k x) (sort_key k xs) = replicate (count (mset (sort_key k xs)) a) a"
    using eq [of "sort_key k xs"] rep [of "sort_key k xs"] by simp
  moreover have "filter (\<lambda>x. k a = k x) ys = replicate (count (mset ys) a) a"
    using eq [OF s] rep [of ys] by simp
  ultimately show "filter (\<lambda>x. k a = k x) (sort_key k xs) = filter (\<lambda>x. k a = k x) ys"
    using assms(1) by simp
qed

lemma text_sort_fields_key:
  assumes "text_sort_fields x"
  shows "date_start_type_key x = Inr [get x ''date'', get x ''start_time'', get x ''type''] \<and>
         those (map str_of [get x ''date'', get x ''start_time'', get x ''type''])
           = Some (date_start_type_text x)"
  using assms
  by (auto simp: text_sort_fields_def date_start_type_key_def subscript_def get_def get_default_def
      date_start_type_text_def)

lemma hash_of_permutation:
  assumes "mset xs = mset ys"
    and "\<forall>x \<in> set xs. text_sort_fields x"
    and "inj_on date_start_type_text (set xs)"
  shows "create_schedule_hash xs = create_schedule_hash ys"
proof -
  have s: "set ys = set xs"
    using assms(1) by (metis set_mset_mset)
  have "py_sorted date_start_type_key xs = Inr (sort_key date_start_type_text xs)"
    using py_sorted_strings [of xs date_start_type_key
        "\<lambda>x. [get x ''date'', get x ''start_time'', get x ''type'']" date_start_type_text]
      assms(2) text_sort_fields_key by (simp add: sort_key_keyed_snd)
  moreover have "py_sorted date_start_type_key ys = Inr (sort_key date_start_type_text ys)"
    using py_sorted_strings [of ys date_start_type_key
        "\<lambda>x. [get x ''date'', get x ''start_time'', get x ''type'']" date_start_type_text]
      assms(2) text_sort_fields_key s by (simp add: sort_key_keyed_snd)
  ultimately show ?thesis
    using sort_key_permutation [OF assms(1,3)] by (simp add: create_schedule_hash_def)
qed

text \<open>
  C9. The hash of a collection is the hash of its permutations where no two different
  entries share \<^verbatim>\<open>(date, start_time, type)\<close> (\<open>hash_of_permutation\<close>). The sort key leaves
  out \<^verbatim>\<open>league\<close>, which the identity key has, and \<^verbatim>\<open>sorted\<close> is stable: two games at
  the same time in two leagues stay in the order of the input, and the two orders have
  different digests.
\<close>

theorem hash_depends_on_order:
  "mset [u15_game, u13_game] = mset [u13_game, u15_game] \<and>
   create_schedule_hash [u13_game, u15_game] = Inr ''5e15a6b8c44601a84e73d25de941b899'' \<and>
   create_schedule_hash [u15_game, u13_game] = Inr ''80b0ea2b58dc7a87c95d846bff05a182''"
proof -
  have "mset [u15_game, u13_game] = mset [u13_game, u15_game]"
    by (simp add: add.commute)
  moreover have "create_schedule_hash [u13_game, u15_game] = Inr ''5e15a6b8c44601a84e73d25de941b899''"
    by code_simp
  moreover have "create_schedule_hash [u15_game, u13_game] = Inr ''80b0ea2b58dc7a87c95d846bff05a182''"
    by code_simp
  ultimately show ?thesis by blast
qed

end
